theory Spec2Isabelle
  imports Complex_Main
begin

section \<open>Data model of the YOLOv3 detection notebook\<close>

text \<open>
  The notebook \<^verbatim>\<open>YOLOv3_DetectObjectFromImage.ipynb\<close> reads the rows of the
  network's output arrays, keeps those whose best class score passes a
  threshold, turns their normalised geometry into pixel boxes, hands boxes and
  confidences to \<^verbatim>\<open>cv2.dnn.NMSBoxes\<close> and draws the retained ones.

  A row \<^verbatim>\<open>detection\<close> is a vector of floats: entries 0..3 are centre and
  extent, entry 4 is skipped by the code, and \<^verbatim>\<open>detection[5:]\<close> are the class
  scores. Floats are modelled as exact rationals: products, quotients and
  comparisons are those of \<open>\<rat>\<close>, with no rounding, no NaN and no infinity.
\<close>

type_synonym row = "rat list"

text \<open>A box is the Python list \<^verbatim>\<open>[x, y, w, h]\<close> of four ints.\<close>

type_synonym box = "int \<times> int \<times> int \<times> int"

text \<open>The exceptions the two cells can raise; \<open>IndexError\<close> names the object subscripted.\<close>

datatype py_error =
    ValueError            \<comment> \<open>\<^verbatim>\<open>np.argmax\<close> of an empty sequence\<close>
  | AttributeError        \<comment> \<open>\<^verbatim>\<open>frame.shape\<close> on \<^verbatim>\<open>None\<close>\<close>
  | ZeroDivisionError     \<comment> \<open>\<^verbatim>\<open>frame_id / elapsed_time\<close> with no time elapsed\<close>
  | IndexError string     \<comment> \<open>subscript out of range\<close>

text \<open>The three lists the decode loop appends to, in step.\<close>

record dec_state =
  class_ids :: "nat list"
  confidences :: "rat list"
  boxes :: "box list"

definition dec_init :: dec_state where
  "dec_init = \<lparr>class_ids = [], confidences = [], boxes = []\<rparr>"

section \<open>The decode loop\<close>

text \<open>Python's \<^verbatim>\<open>int(f)\<close> on a float: truncation toward zero.\<close>

definition py_int :: "rat \<Rightarrow> int" where
  "py_int q = (if 0 \<le> q then \<lfloor>q\<rfloor> else \<lceil>q\<rceil>)"

text \<open>
  \<^verbatim>\<open>np.argmax(scores)\<close>: the index of the first occurrence of the largest
  entry; on an empty sequence it raises.
\<close>

primrec first_index :: "rat \<Rightarrow> rat list \<Rightarrow> nat" where
  "first_index v [] = 0"
| "first_index v (s # ss) = (if s = v then 0 else Suc (first_index v ss))"

definition np_argmax :: "rat list \<Rightarrow> py_error + nat" where
  "np_argmax scores =
     (case scores of
        [] \<Rightarrow> Inl ValueError
      | s # ss \<Rightarrow> Inr (first_index (fold max ss s) scores))"

text \<open>
  The body of \<^verbatim>\<open>for detection in out\<close>, with the literal threshold
  (0.5 in the image cell, 0.2 in the video cell) as the parameter \<open>thr\<close>:
  \<^verbatim>\<open>
  scores = detection[5:]
  class_id = np.argmax(scores)
  confidence = scores[class_id]
  if confidence > thr:
      center_x = int(detection[0]*width)
      center_y = int(detection[1]*height)
      w = int(detection[2]*width)
      h = int(detection[3]*height)
      x = int(center_x - w/2)
      y = int(center_y - h/2)
      boxes.append([x,y,w,h])
      confidences.append(float(confidence))
      class_ids.append(class_id)
  \<close>
  In the branch the row has more than five entries, so the subscripts 0..3
  are in range.
\<close>

definition decode_row :: "rat \<Rightarrow> int \<Rightarrow> int \<Rightarrow> dec_state \<Rightarrow> row \<Rightarrow> py_error + dec_state" where
  "decode_row thr width height st detection =
     (let scores = drop 5 detection in
      case np_argmax scores of
        Inl e \<Rightarrow> Inl e
      | Inr class_id \<Rightarrow>
          let confidence = scores ! class_id in
          if confidence > thr then
            let center_x = py_int (detection ! 0 * of_int width);
                center_y = py_int (detection ! 1 * of_int height);
                w = py_int (detection ! 2 * of_int width);
                h = py_int (detection ! 3 * of_int height);
                x = py_int (of_int center_x - of_int w / 2);
                y = py_int (of_int center_y - of_int h / 2)
            in Inr \<lparr>class_ids = class_ids st @ [class_id],
                    confidences = confidences st @ [confidence],
                    boxes = boxes st @ [(x, y, w, h)]\<rparr>
          else Inr st)"

text \<open>\<^verbatim>\<open>for detection in out\<close>: an exception leaves the loop at once.\<close>

fun decode_out :: "rat \<Rightarrow> int \<Rightarrow> int \<Rightarrow> dec_state \<Rightarrow> row list \<Rightarrow> py_error + dec_state" where
  "decode_out thr width height st [] = Inr st"
| "decode_out thr width height st (detection # out) =
     (case decode_row thr width height st detection of
        Inl e \<Rightarrow> Inl e
      | Inr st' \<Rightarrow> decode_out thr width height st' out)"

text \<open>\<^verbatim>\<open>for out in outs\<close>, started from the three empty lists.\<close>

fun decode_outs :: "rat \<Rightarrow> int \<Rightarrow> int \<Rightarrow> dec_state \<Rightarrow> row list list \<Rightarrow> py_error + dec_state" where
  "decode_outs thr width height st [] = Inr st"
| "decode_outs thr width height st (out # outs) =
     (case decode_out thr width height st out of
        Inl e \<Rightarrow> Inl e
      | Inr st' \<Rightarrow> decode_outs thr width height st' outs)"

definition decode :: "rat \<Rightarrow> int \<Rightarrow> int \<Rightarrow> row list list \<Rightarrow> py_error + dec_state" where
  "decode thr width height outs = decode_outs thr width height dec_init outs"

text \<open>The two callers: the still-image cell and the video cell.\<close>

definition decode_image :: "int \<Rightarrow> int \<Rightarrow> row list list \<Rightarrow> py_error + dec_state" where
  "decode_image = decode (1 / 2)"

definition decode_video :: "int \<Rightarrow> int \<Rightarrow> row list list \<Rightarrow> py_error + dec_state" where
  "decode_video = decode (1 / 5)"

text \<open>The confidence of a row as the specification names it: its largest class score.\<close>

definition row_confidence :: "row \<Rightarrow> rat" where
  "row_confidence detection = Max (set (drop 5 detection))"

text \<open>
  The row's class and pixel box, as the branch above computes them; they name
  the parts of the appended entry in the statements below.
\<close>

definition row_class :: "row \<Rightarrow> nat" where
  "row_class detection = first_index (row_confidence detection) (drop 5 detection)"

definition row_box :: "int \<Rightarrow> int \<Rightarrow> row \<Rightarrow> box" where
  "row_box width height detection =
     (let center_x = py_int (detection ! 0 * of_int width);
          center_y = py_int (detection ! 1 * of_int height);
          w = py_int (detection ! 2 * of_int width);
          h = py_int (detection ! 3 * of_int height)
      in (py_int (of_int center_x - of_int w / 2), py_int (of_int center_y - of_int h / 2), w, h))"

section \<open>Non-max suppression\<close>

text \<open>
  The notebook calls \<^verbatim>\<open>cv2.dnn.NMSBoxes(boxes, confidences, score, overlap)\<close>.
  The body of that function is not part of the source files, so the suppressor
  is written from section 4.2 of the specification.
\<close>

definition degenerate :: "box \<Rightarrow> bool" where
  "degenerate b = (case b of (x, y, w, h) \<Rightarrow> w \<le> 0 \<or> h \<le> 0)"

definition area :: "box \<Rightarrow> int" where
  "area b = (case b of (x, y, w, h) \<Rightarrow> w * h)"

definition inter_area :: "box \<Rightarrow> box \<Rightarrow> int" where
  "inter_area a b =
     (case a of (x1, y1, w1, h1) \<Rightarrow> case b of (x2, y2, w2, h2) \<Rightarrow>
        max 0 (min (x1 + w1) (x2 + w2) - max x1 x2) *
        max 0 (min (y1 + h1) (y2 + h2) - max y1 y2))"

text \<open>
  Modelled from the spec: the overlap measure of \<^verbatim>\<open>cv2.dnn.NMSBoxes\<close>,
  missing from the source. "IoU of two boxes = intersection area / union
  area, using the pixel rectangles; a box with zero or negative width/height
  has IoU 0 with everything."
\<close>

definition iou :: "box \<Rightarrow> box \<Rightarrow> rat" where
  "iou a b =
     (if degenerate a \<or> degenerate b then 0
      else of_int (inter_area a b) / of_int (area a + area b - inter_area a b))"

text \<open>
  Modelled from the spec: steps 1 and 2 of the suppressor, missing from the
  source. "Discard any detection with confidence < scoreThreshold. Sort
  remaining candidates by confidence descending; ties broken by original index
  ascending (stable)." \<open>sort_key\<close> is the stable insertion sort of the list
  library.
\<close>

definition candidates :: "rat list \<Rightarrow> nat \<Rightarrow> rat \<Rightarrow> nat list" where
  "candidates scores n score_threshold =
     sort_key (\<lambda>i. - (scores ! i)) (filter (\<lambda>i. \<not> scores ! i < score_threshold) [0..<n])"

text \<open>
  Modelled from the spec: steps 3 and 4 of the suppressor, missing from the
  source. "Repeatedly take the highest-confidence remaining candidate, add
  it to the retained set, and remove every other remaining candidate whose
  IoU with it exceeds overlapThreshold. Continue until no candidates remain."
\<close>

function greedy :: "box list \<Rightarrow> rat \<Rightarrow> nat list \<Rightarrow> nat list" where
  "greedy bboxes nms_threshold [] = []"
| "greedy bboxes nms_threshold (c # cs) =
     c # greedy bboxes nms_threshold
           (filter (\<lambda>j. \<not> nms_threshold < iou (bboxes ! c) (bboxes ! j)) cs)"
  by pat_completeness auto
termination
  by (relation "measure (\<lambda>(bboxes, nms_threshold, cs). length cs)") (auto simp: less_Suc_eq_le)

text \<open>
  Modelled from the spec: \<^verbatim>\<open>cv2.dnn.NMSBoxes\<close>, missing from the source, as
  the greedy suppressor of section 4.2 over the boxes and scores it is handed.
  The result lists the retained indices in the order they were retained.
\<close>

definition NMSBoxes :: "box list \<Rightarrow> rat list \<Rightarrow> rat \<Rightarrow> rat \<Rightarrow> nat list" where
  "NMSBoxes bboxes scores score_threshold nms_threshold =
     greedy bboxes nms_threshold
       (candidates scores (min (length bboxes) (length scores)) score_threshold)"

text \<open>
  A detection of the specification's data model, and the suppressor's contract
  over a detection set. As at the call site, only boxes and confidences reach
  the suppressor.
\<close>

record detection =
  class_id :: nat
  confidence :: rat
  rect :: box

definition Suppressor :: "detection list \<Rightarrow> rat \<Rightarrow> rat \<Rightarrow> nat list" where
  "Suppressor ds scoreThreshold overlapThreshold =
     NMSBoxes (map rect ds) (map confidence ds) scoreThreshold overlapThreshold"

text \<open>The detection set restricted to a set of indices, in its own order.\<close>

definition restrict_to :: "'a list \<Rightarrow> nat list \<Rightarrow> 'a list" where
  "restrict_to ds indexes = map (\<lambda>i. ds ! i) (filter (\<lambda>i. i \<in> set indexes) [0..<length ds])"

section \<open>Drawing the retained detections\<close>

type_synonym color = "rat \<times> rat \<times> rat"

text \<open>
  \<^verbatim>\<open>colors = np.random.uniform(0,255,size=(len(classes),3))\<close>: one row per
  class name. The random source is the parameter \<open>rnd\<close>.
\<close>

definition make_colors :: "(nat \<Rightarrow> color) \<Rightarrow> string list \<Rightarrow> color list" where
  "make_colors rnd classes = map rnd [0..<length classes]"

text \<open>A subscript on a list or array with a non-negative index.\<close>

definition subscript :: "string \<Rightarrow> 'a list \<Rightarrow> nat \<Rightarrow> py_error + 'a" where
  "subscript name xs i = (if i < length xs then Inr (xs ! i) else Inl (IndexError name))"

text \<open>
  What one pass of the drawing loop puts on the frame: the rectangle, its
  label, the confidence printed beside it (video cell only; kept unrounded)
  and the rectangle's colour.
\<close>

record drawn =
  d_box :: box
  d_label :: string
  d_conf :: "rat option"
  d_color :: color

text \<open>
  The still-image cell:
  \<^verbatim>\<open>
  x,y,w,h = boxes[i]
  label = str(classes[class_ids[i]])
  color = colors[i]
  cv2.rectangle(img,(x,y),(x+w,y+h),color,2)
  cv2.putText(img,label,(x,y+30),font,1,(255,255,255),2)
  \<close>
\<close>

definition draw_image :: "string list \<Rightarrow> color list \<Rightarrow> dec_state \<Rightarrow> nat \<Rightarrow> py_error + drawn" where
  "draw_image classes colors st i =
     (case subscript ''boxes'' (boxes st) i of Inl e \<Rightarrow> Inl e | Inr b \<Rightarrow>
      case subscript ''class_ids'' (class_ids st) i of Inl e \<Rightarrow> Inl e | Inr cid \<Rightarrow>
      case subscript ''classes'' classes cid of Inl e \<Rightarrow> Inl e | Inr label \<Rightarrow>
      case subscript ''colors'' colors i of Inl e \<Rightarrow> Inl e | Inr color \<Rightarrow>
        Inr \<lparr>d_box = b, d_label = label, d_conf = None, d_color = color\<rparr>)"

text \<open>
  The video cell:
  \<^verbatim>\<open>
  x, y, w, h = boxes[i]
  label = str(classes[class_ids[i]])
  confidence = confidences[i]
  color = colors[class_ids[i]]
  cv2.rectangle(frame, (x, y), (x + w, y + h), color, 2)
  cv2.putText(frame, label + " " + str(round(confidence, 2)), ...)
  \<close>
\<close>

definition draw_video :: "string list \<Rightarrow> color list \<Rightarrow> dec_state \<Rightarrow> nat \<Rightarrow> py_error + drawn" where
  "draw_video classes colors st i =
     (case subscript ''boxes'' (boxes st) i of Inl e \<Rightarrow> Inl e | Inr b \<Rightarrow>
      case subscript ''class_ids'' (class_ids st) i of Inl e \<Rightarrow> Inl e | Inr cid \<Rightarrow>
      case subscript ''classes'' classes cid of Inl e \<Rightarrow> Inl e | Inr label \<Rightarrow>
      case subscript ''confidences'' (confidences st) i of Inl e \<Rightarrow> Inl e | Inr conf \<Rightarrow>
      case subscript ''colors'' colors cid of Inl e \<Rightarrow> Inl e | Inr color \<Rightarrow>
        Inr \<lparr>d_box = b, d_label = label, d_conf = Some conf, d_color = color\<rparr>)"

text \<open>
  \<^verbatim>\<open>for i in range(len(boxes)): if i in indexes: ...\<close> over the remaining
  part of the range, with what has been drawn so far.
\<close>

fun annotate_loop :: "(nat \<Rightarrow> py_error + drawn) \<Rightarrow> nat list \<Rightarrow> nat list \<Rightarrow> drawn list \<Rightarrow> py_error + drawn list" where
  "annotate_loop draw indexes [] acc = Inr acc"
| "annotate_loop draw indexes (i # rest) acc =
     (if i \<in> set indexes then
        (case draw i of
           Inl e \<Rightarrow> Inl e
         | Inr d \<Rightarrow> annotate_loop draw indexes rest (acc @ [d]))
      else annotate_loop draw indexes rest acc)"

definition annotate_image :: "string list \<Rightarrow> color list \<Rightarrow> dec_state \<Rightarrow> nat list \<Rightarrow> py_error + drawn list" where
  "annotate_image classes colors st indexes =
     annotate_loop (draw_image classes colors st) indexes [0..<length (boxes st)] []"

definition annotate_video :: "string list \<Rightarrow> color list \<Rightarrow> dec_state \<Rightarrow> nat list \<Rightarrow> py_error + drawn list" where
  "annotate_video classes colors st indexes =
     annotate_loop (draw_video classes colors st) indexes [0..<length (boxes st)] []"

text \<open>
  The still-image cell from the network's output to the drawn frame, with the
  suppression primitive as the parameter \<open>nms\<close>.
\<close>

definition image_cell ::
  "(box list \<Rightarrow> rat list \<Rightarrow> rat \<Rightarrow> rat \<Rightarrow> nat list) \<Rightarrow> string list \<Rightarrow> color list \<Rightarrow>
     int \<Rightarrow> int \<Rightarrow> row list list \<Rightarrow> py_error + drawn list" where
  "image_cell nms classes colors height width outs =
     (case decode_image width height outs of
        Inl e \<Rightarrow> Inl e
      | Inr st \<Rightarrow>
          annotate_image classes colors st (nms (boxes st) (confidences st) (2 / 5) (3 / 5)))"

section \<open>The video loop\<close>

text \<open>
  What the outside world supplies to one pass of \<^verbatim>\<open>while True\<close>: the frame
  \<^verbatim>\<open>cap.read()\<close> returns (\<open>None\<close> when the capture fails) with its height,
  width and the rows the network computes for it, the seconds elapsed since
  the start, and the key \<^verbatim>\<open>cv2.waitKey(1)\<close> returns.
\<close>

record pass_input =
  frame :: "(int \<times> int \<times> row list list) option"
  elapsed_time :: rat
  key :: int

text \<open>
  The session: the frame counter, the frames shown with their FPS figure, and
  how often the capture handle and the windows have been released.
\<close>

record session =
  frame_id :: nat
  shown :: "(drawn list \<times> rat) list"
  cap_released :: nat
  windows_destroyed :: nat

definition session_init :: session where
  "session_init = \<lparr>frame_id = 0, shown = [], cap_released = 0, windows_destroyed = 0\<rparr>"

text \<open>
  One pass up to and including \<^verbatim>\<open>cv2.imshow\<close>. An exception carries the
  session as it stood when raised.
\<close>

definition video_pass ::
  "(box list \<Rightarrow> rat list \<Rightarrow> rat \<Rightarrow> rat \<Rightarrow> nat list) \<Rightarrow> string list \<Rightarrow> color list \<Rightarrow>
     session \<Rightarrow> pass_input \<Rightarrow> (py_error \<times> session) + session" where
  "video_pass nms classes colors s inp =
     (let s1 = s\<lparr>frame_id := frame_id s + 1\<rparr> in
      case frame inp of
        None \<Rightarrow> Inl (AttributeError, s1)
      | Some (height, width, outs) \<Rightarrow>
          (case decode_video width height outs of
             Inl e \<Rightarrow> Inl (e, s1)
           | Inr st \<Rightarrow>
               (case annotate_video classes colors st
                       (nms (boxes st) (confidences st) (4 / 5) (3 / 10)) of
                  Inl e \<Rightarrow> Inl (e, s1)
                | Inr ds \<Rightarrow>
                    if elapsed_time inp = 0 then Inl (ZeroDivisionError, s1)
                    else Inr (s1\<lparr>shown := shown s1 @
                                 [(ds, of_nat (frame_id s1) / elapsed_time inp)]\<rparr>))))"

text \<open>\<^verbatim>\<open>cap.release(); cv2.destroyAllWindows()\<close>, the two lines after the loop.\<close>

definition teardown :: "session \<Rightarrow> session" where
  "teardown s = s\<lparr>cap_released := cap_released s + 1,
                  windows_destroyed := windows_destroyed s + 1\<rparr>"

text \<open>
  How the cell ends on a finite supply of passes: the loop was left by
  \<^verbatim>\<open>break\<close> and the teardown ran; an exception left the cell; or the supply
  ran out with the loop still running.
\<close>

datatype outcome = Stopped session | Raised py_error session | Running session

fun video_loop ::
  "(box list \<Rightarrow> rat list \<Rightarrow> rat \<Rightarrow> rat \<Rightarrow> nat list) \<Rightarrow> string list \<Rightarrow> color list \<Rightarrow>
     session \<Rightarrow> pass_input list \<Rightarrow> outcome" where
  "video_loop nms classes colors s [] = Running s"
| "video_loop nms classes colors s (inp # inps) =
     (case video_pass nms classes colors s inp of
        Inl (e, s') \<Rightarrow> Raised e s'
      | Inr s' \<Rightarrow>
          if key inp = 27 then Stopped (teardown s')
          else video_loop nms classes colors s' inps)"

definition video_cell ::
  "(box list \<Rightarrow> rat list \<Rightarrow> rat \<Rightarrow> rat \<Rightarrow> nat list) \<Rightarrow> string list \<Rightarrow> color list \<Rightarrow>
     pass_input list \<Rightarrow> outcome" where
  "video_cell nms classes colors inps = video_loop nms classes colors session_init inps"

section \<open>Properties of the decode loop\<close>

lemma first_index_hit:
  "v \<in> set ss \<Longrightarrow> first_index v ss < length ss \<and> ss ! first_index v ss = v"
  by (induction ss) auto

lemma np_argmax_empty: "np_argmax [] = Inl ValueError"
  by (simp add: np_argmax_def)

lemma np_argmax_nonempty:
  assumes "scores \<noteq> []"
  shows "np_argmax scores = Inr (first_index (Max (set scores)) scores)"
proof -
  from assms obtain s ss where sc: "scores = s # ss" by (cases scores) auto
  have "fold max ss s = Max (set (s # ss))" by (simp only: Max.set_eq_fold)
  then show ?thesis by (simp add: np_argmax_def sc)
qed

lemma argmax_score:
  assumes "scores \<noteq> []"
  shows "scores ! first_index (Max (set scores)) scores = Max (set scores)"
proof -
  have "Max (set scores) \<in> set scores" using assms by (intro Max_in) auto
  then show ?thesis using first_index_hit by blast
qed

text \<open>
  The three ways a row can go: no class scores, so \<^verbatim>\<open>np.argmax\<close> raises;
  best score above the threshold, so one entry is appended to each list; or
  the row is passed over.
\<close>

lemma decode_row_cases:
  "decode_row thr width height st detection =
     (if length detection \<le> 5 then Inl ValueError
      else if thr < row_confidence detection then
        Inr \<lparr>class_ids = class_ids st @ [row_class detection],
             confidences = confidences st @ [row_confidence detection],
             boxes = boxes st @ [row_box width height detection]\<rparr>
      else Inr st)"
proof (cases "length detection \<le> 5")
  case True
  then show ?thesis by (simp add: decode_row_def np_argmax_empty)
next
  case False
  then have ne: "drop 5 detection \<noteq> []" by simp
  show ?thesis
    using False argmax_score[OF ne]
    by (simp add: decode_row_def np_argmax_nonempty[OF ne] row_confidence_def row_class_def
        row_box_def Let_def)
qed

lemma decode_out_confidences:
  "decode_out thr width height st out = Inr st' \<Longrightarrow>
     confidences st' = confidences st @ filter (\<lambda>c. thr < c) (map row_confidence out)
   \<and> length (boxes st') =
       length (boxes st) + length (filter (\<lambda>c. thr < c) (map row_confidence out))
   \<and> length (class_ids st') =
       length (class_ids st) + length (filter (\<lambda>c. thr < c) (map row_confidence out))"
proof (induction out arbitrary: st)
  case Nil
  then show ?case by simp
next
  case (Cons r out)
  then show ?case
    by (auto simp: decode_row_cases split: if_splits sum.splits)
qed

lemma decode_outs_confidences:
  "decode_outs thr width height st outs = Inr st' \<Longrightarrow>
     confidences st' = confidences st @ filter (\<lambda>c. thr < c) (map row_confidence (concat outs))
   \<and> length (boxes st') =
       length (boxes st) + length (filter (\<lambda>c. thr < c) (map row_confidence (concat outs)))
   \<and> length (class_ids st') =
       length (class_ids st) + length (filter (\<lambda>c. thr < c) (map row_confidence (concat outs)))"
proof (induction outs arbitrary: st)
  case Nil
  then show ?case by simp
next
  case (Cons out outs)
  from Cons.prems obtain st1 where
    1: "decode_out thr width height st out = Inr st1" and
    2: "decode_outs thr width height st1 outs = Inr st'"
    by (auto split: sum.splits)
  show ?case
    using decode_out_confidences[OF 1] Cons.IH[OF 2] by simp
qed

text \<open>The loop returns whenever every row carries at least one class score.\<close>

lemma decode_out_total:
  "\<forall>r \<in> set out. 5 < length r \<Longrightarrow> \<exists>st'. decode_out thr width height st out = Inr st'"
  by (induction out arbitrary: st) (auto simp: decode_row_cases)

lemma decode_outs_total:
  "\<forall>out \<in> set outs. \<forall>r \<in> set out. 5 < length r \<Longrightarrow>
     \<exists>st'. decode_outs thr width height st outs = Inr st'"
proof (induction outs arbitrary: st)
  case Nil
  then show ?case by simp
next
  case (Cons out outs)
  then obtain st1 where "decode_out thr width height st out = Inr st1"
    using decode_out_total[of out thr width height st] by auto
  with Cons show ?case by simp
qed

lemma decode_total:
  "\<forall>out \<in> set outs. \<forall>r \<in> set out. 5 < length r \<Longrightarrow> \<exists>st. decode thr width height outs = Inr st"
  unfolding decode_def by (rule decode_outs_total)

text \<open>
  C2. Whenever the decode loop returns, the confidences it has collected are
  exactly the rows' largest class scores that are strictly greater than the
  threshold, in row order: a row whose largest score is less than or equal to
  the threshold contributes nothing, every collected confidence is strictly
  above the threshold, and boxes and class ids are collected in step.
\<close>

theorem decoder_threshold:
  assumes "decode thr width height outs = Inr st"
  shows "(\<forall>c \<in> set (confidences st). thr < c)
       \<and> confidences st = filter (\<lambda>c. thr < c) (map row_confidence (concat outs))
       \<and> length (boxes st) = length (confidences st)
       \<and> length (class_ids st) = length (confidences st)"
  using decode_outs_confidences[OF assms[unfolded decode_def]]
  by (simp add: dec_init_def)

theorem decoder_threshold_witness:
  "decode (1 / 2) 416 416
      [[[1/2, 1/2, 1/5, 3/10, 1, 9/10, 1/10], [1/2, 1/2, 1/5, 3/10, 1, 1/2, 1/10]]]
     = Inr \<lparr>class_ids = [0], confidences = [9/10], boxes = [(166, 146, 83, 124)]\<rparr>
   \<and> confidences \<lparr>class_ids = [0], confidences = [9/10], boxes = [(166, 146, 83, 124)]\<rparr> =
       filter (\<lambda>c. (1 / 2) < c) (map row_confidence (concat
         [[[1/2, 1/2, 1/5, 3/10, 1, 9/10, 1/10], [1/2, 1/2, 1/5, 3/10, 1, 1/2, 1/10]]]))"
proof -
  have h: "decode (1 / 2) 416 416
      [[[1/2, 1/2, 1/5, 3/10, 1, 9/10, 1/10], [1/2, 1/2, 1/5, 3/10, 1, 1/2, 1/10]]]
     = Inr \<lparr>class_ids = [0], confidences = [9/10], boxes = [(166, 146, 83, 124)]\<rparr>"
    by code_simp
  show ?thesis using h decoder_threshold[OF h] by blast
qed

text \<open>
  C3. A row with \<open>cx = cy = 0.5\<close>, \<open>w = 0.2\<close>, \<open>h = 0.3\<close> whose best class
  score passes the threshold, on a 416 by 416 frame, is decoded to the box with
  top-left corner (166, 146) and extent (83, 124): 83.2 and 124.8 are cut to 83
  and 124, and 166.5 is cut to 166.
\<close>

theorem decode_box_example:
  assumes "scores \<noteq> []" and "thr < Max (set scores)"
  shows "decode_row thr 416 416 st (1/2 # 1/2 # 1/5 # 3/10 # obj # scores) =
           Inr \<lparr>class_ids = class_ids st @ [first_index (Max (set scores)) scores],
                confidences = confidences st @ [Max (set scores)],
                boxes = boxes st @ [(166, 146, 83, 124)]\<rparr>"
proof -
  let ?r = "1/2 # 1/2 # 1/5 # 3/10 # obj # scores"
  have n: "?r ! 0 = 1/2" "?r ! 1 = 1/2" "?r ! 2 = 1/5" "?r ! 3 = 3/10"
    by simp_all
  have c: "py_int (1/2 * of_int 416) = 208" "py_int (1/5 * of_int 416) = 83"
    "py_int (3/10 * of_int 416) = 124"
    by code_simp+
  have t: "py_int (of_int 208 - of_int 83 / 2) = 166"
    "py_int (of_int 208 - of_int 124 / 2) = 146"
    by code_simp+
  have b: "row_box 416 416 ?r = (166, 146, 83, 124)"
    unfolding row_box_def Let_def n c t ..
  show ?thesis using assms
    by (simp add: decode_row_cases row_confidence_def row_class_def b)
qed

theorem decode_box_example_witness:
  "[9/10, 1/10] \<noteq> ([] :: rat list) \<and> (1 / 2) < Max (set [9/10, 1/10 :: rat])
   \<and> decode_row (1 / 2) 416 416 dec_init [1/2, 1/2, 1/5, 3/10, 1, 9/10, 1/10] =
       Inr \<lparr>class_ids = [0], confidences = [9/10], boxes = [(166, 146, 83, 124)]\<rparr>"
proof -
  have a: "[9/10, 1/10] \<noteq> ([] :: rat list)" by simp
  have b: "(1 / 2) < Max (set [9/10, 1/10 :: rat])" by simp
  show ?thesis
    using a b decode_box_example[OF a b, of dec_init 1]
    by (simp add: dec_init_def)
qed

text \<open>
  The same box results when 0.2 and 0.3 are taken as the single-precision
  values nearest to them, \<open>13421773 / 2^26\<close> and \<open>10066330 / 2^25\<close>, which is
  what a row of the network's output holds.
\<close>

lemma decode_box_example_float32:
  "decode_row (1 / 2) 416 416 dec_init
      [1/2, 1/2, 13421773 / 67108864, 10066330 / 33554432, 1, 9/10, 1/10] =
     Inr \<lparr>class_ids = [0], confidences = [9/10], boxes = [(166, 146, 83, 124)]\<rparr>"
  by code_simp

text \<open>
  C8, as the specification states it, fails: with three class names loaded, a
  row that carries only two class scores is decoded to a detection like any
  other row, and nothing is raised.
\<close>

theorem shape_mismatch_counterexample:
  "length (drop 5 [1/2, 1/2, 1/5, 3/10, 1, 9/10, 1/10 :: rat])
     \<noteq> length [''person'', ''bicycle'', ''car'']
   \<and> decode_image 416 416 [[[1/2, 1/2, 1/5, 3/10, 1, 9/10, 1/10]]] =
       Inr \<lparr>class_ids = [0], confidences = [9/10], boxes = [(166, 146, 83, 124)]\<rparr>"
  by code_simp

text \<open>
  C8, amended. The decode loop never looks at the class list. A row is decoded
  by its own score vector alone, whatever its length: with no class score at
  all \<^verbatim>\<open>np.argmax\<close> raises \<open>ValueError\<close>; otherwise the row yields a
  detection when its largest score is above the threshold and is passed over
  when it is not.
\<close>

theorem decode_row_any_score_length:
  "decode_row thr width height st detection =
     (if drop 5 detection = [] then Inl ValueError
      else if thr < row_confidence detection then
        Inr \<lparr>class_ids = class_ids st @ [row_class detection],
             confidences = confidences st @ [row_confidence detection],
             boxes = boxes st @ [row_box width height detection]\<rparr>
      else Inr st)"
  by (simp add: decode_row_cases)

section \<open>Properties of the suppressor\<close>

text \<open>The overlap measure is symmetric, and vanishes on a box without extent.\<close>

lemma inter_area_commute: "inter_area a b = inter_area b a"
  by (cases a, cases b) (simp add: inter_area_def min.commute max.commute)

lemma iou_commute: "iou a b = iou b a"
  by (simp add: iou_def inter_area_commute disj_commute add.commute)

lemma iou_degenerate: "degenerate a \<or> degenerate b \<Longrightarrow> iou a b = 0"
  by (simp add: iou_def)

text \<open>
  The greedy pass, by computation induction: it only selects among its
  candidates, selects none twice, and leaves no two selected boxes overlapping
  by more than the threshold.
\<close>

lemma greedy_subset: "set (greedy bb t cs) \<subseteq> set cs"
  by (induction bb t cs rule: greedy.induct) auto

lemma greedy_distinct: "distinct cs \<Longrightarrow> distinct (greedy bb t cs)"
proof (induction bb t cs rule: greedy.induct)
  case (1 bb t)
  then show ?case by simp
next
  case (2 bb t c cs)
  let ?cs' = "filter (\<lambda>j. \<not> t < iou (bb ! c) (bb ! j)) cs"
  have "c \<notin> set (greedy bb t ?cs')" using greedy_subset[of bb t ?cs'] 2(2) by auto
  moreover have "distinct (greedy bb t ?cs')" using 2 by simp
  ultimately show ?case by simp
qed

lemma greedy_pairwise:
  "i \<in> set (greedy bb t cs) \<Longrightarrow> j \<in> set (greedy bb t cs) \<Longrightarrow> i \<noteq> j \<Longrightarrow>
     iou (bb ! i) (bb ! j) \<le> t"
proof (induction bb t cs rule: greedy.induct)
  case (1 bb t)
  then show ?case by simp
next
  case (2 bb t c cs)
  let ?cs' = "filter (\<lambda>j. \<not> t < iou (bb ! c) (bb ! j)) cs"
  have kept: "\<And>k. k \<in> set (greedy bb t ?cs') \<Longrightarrow> iou (bb ! c) (bb ! k) \<le> t"
    using greedy_subset[of bb t ?cs'] by auto
  consider "i = c" "j \<in> set (greedy bb t ?cs')"
    | "j = c" "i \<in> set (greedy bb t ?cs')"
    | "i \<in> set (greedy bb t ?cs')" "j \<in> set (greedy bb t ?cs')"
    using 2(2,3,4) by auto
  then show ?case
  proof cases
    case 1
    then show ?thesis using kept by simp
  next
    case 2
    then show ?thesis using kept[of i] by (simp add: iou_commute)
  next
    case 3
    then show ?thesis using 2(1,4) by simp
  qed
qed

text \<open>Candidates that do not overlap one another are all retained, in order.\<close>

lemma greedy_id:
  "distinct cs \<Longrightarrow> (\<forall>i \<in> set cs. \<forall>j \<in> set cs. i \<noteq> j \<longrightarrow> iou (bb ! i) (bb ! j) \<le> t) \<Longrightarrow>
     greedy bb t cs = cs"
proof (induction bb t cs rule: greedy.induct)
  case (1 bb t)
  then show ?case by simp
next
  case (2 bb t c cs)
  have "filter (\<lambda>j. \<not> t < iou (bb ! c) (bb ! j)) cs = cs"
    using 2(2,3) by (intro filter_True) (auto simp: not_less)
  then show ?case using 2 by simp
qed

lemma greedy_keeps:
  "c \<in> set cs \<Longrightarrow> (\<forall>j. \<not> t < iou (bb ! j) (bb ! c)) \<Longrightarrow> c \<in> set (greedy bb t cs)"
  by (induction bb t cs rule: greedy.induct) auto

text \<open>The candidates are the indices that pass the score gate, each once.\<close>

lemma set_candidates: "set (candidates scores n s) = {i. i < n \<and> \<not> scores ! i < s}"
  by (auto simp: candidates_def)

lemma distinct_candidates: "distinct (candidates scores n s)"
  by (simp add: candidates_def)

lemma Suppressor_unfold:
  "Suppressor ds s t = greedy (map rect ds) t (candidates (map confidence ds) (length ds) s)"
  by (simp add: Suppressor_def NMSBoxes_def)

lemma Suppressor_member:
  "i \<in> set (Suppressor ds s t) \<Longrightarrow> i < length ds \<and> \<not> confidence (ds ! i) < s"
  using greedy_subset[of "map rect ds" t "candidates (map confidence ds) (length ds) s"]
  by (auto simp: Suppressor_unfold set_candidates)

lemma Suppressor_pairwise:
  assumes "i \<in> set (Suppressor ds s t)" "j \<in> set (Suppressor ds s t)" "i \<noteq> j"
  shows "iou (rect (ds ! i)) (rect (ds ! j)) \<le> t"
proof -
  have "iou (map rect ds ! i) (map rect ds ! j) \<le> t"
    using assms unfolding Suppressor_unfold by (rule greedy_pairwise)
  then show ?thesis using Suppressor_member[OF assms(1)] Suppressor_member[OF assms(2)] by simp
qed

lemma Suppressor_distinct: "distinct (Suppressor ds s t)"
  unfolding Suppressor_unfold by (rule greedy_distinct[OF distinct_candidates])

text \<open>
  C1. For every detection set and every pair of thresholds, the suppressor
  retains only indices of its input, each at most once, and the boxes of any
  two distinct retained detections have an IoU of at most the overlap
  threshold.
\<close>

theorem suppressor_sound:
  "set (Suppressor ds s t) \<subseteq> {..<length ds}
   \<and> distinct (Suppressor ds s t)
   \<and> (\<forall>i \<in> set (Suppressor ds s t). \<forall>j \<in> set (Suppressor ds s t).
        i \<noteq> j \<longrightarrow> iou (rect (ds ! i)) (rect (ds ! j)) \<le> t)"
  using Suppressor_member[of _ ds s t] Suppressor_pairwise[of _ ds s t] Suppressor_distinct[of ds s t]
  by auto

text \<open>
  A detection set whose members all pass the score gate and do not overlap one
  another is retained whole.
\<close>

theorem suppressor_sound_witness:
  "Suppressor
      [\<lparr>class_id = 1, confidence = 3 / 5, rect = (0, 0, 10, 9)\<rparr>,
       \<lparr>class_id = 0, confidence = 9 / 10, rect = (0, 0, 10, 10)\<rparr>,
       \<lparr>class_id = 0, confidence = 9 / 10, rect = (5, 0, 10, 10)\<rparr>,
       \<lparr>class_id = 0, confidence = 1 / 10, rect = (50, 0, 10, 10)\<rparr>] (2 / 5) (3 / 5) = [1, 2]
   \<and> iou (0, 0, 10, 10) (5, 0, 10, 10) \<le> 3 / 5"
proof -
  let ?ds = "[\<lparr>class_id = 1, confidence = 3 / 5, rect = (0, 0, 10, 9)\<rparr>,
       \<lparr>class_id = 0, confidence = 9 / 10, rect = (0, 0, 10, 10)\<rparr>,
       \<lparr>class_id = 0, confidence = 9 / 10, rect = (5, 0, 10, 10)\<rparr>,
       \<lparr>class_id = 0, confidence = 1 / 10, rect = (50, 0, 10, 10)\<rparr>]"
  have r: "Suppressor ?ds (2 / 5) (3 / 5) = [1, 2]" by code_simp
  have "\<forall>i \<in> set [1, 2]. \<forall>j \<in> set [1, 2]. i \<noteq> j \<longrightarrow> iou (rect (?ds ! i)) (rect (?ds ! j)) \<le> 3 / 5"
    using suppressor_sound[of ?ds "2 / 5" "3 / 5"] unfolding r by blast
  then have "iou (rect (?ds ! 1)) (rect (?ds ! 2)) \<le> 3 / 5" by simp
  then show ?thesis using r by simp
qed

lemma Suppressor_all:
  assumes conf: "\<And>k. k < length ks \<Longrightarrow> \<not> confidence (ks ! k) < s"
    and pw: "\<And>k l. k < length ks \<Longrightarrow> l < length ks \<Longrightarrow> k \<noteq> l \<Longrightarrow>
               iou (rect (ks ! k)) (rect (ks ! l)) \<le> t"
  shows "set (Suppressor ks s t) = {..<length ks}"
proof -
  let ?cs = "candidates (map confidence ks) (length ks) s"
  have set_cs: "set ?cs = {..<length ks}"
    using conf by (auto simp: set_candidates)
  have "greedy (map rect ks) t ?cs = ?cs"
  proof (rule greedy_id[OF distinct_candidates], intro ballI impI)
    fix i j assume "i \<in> set ?cs" "j \<in> set ?cs" "i \<noteq> j"
    then show "iou (map rect ks ! i) (map rect ks ! j) \<le> t"
      using pw[of i j] set_cs by simp
  qed
  then show ?thesis using set_cs by (simp add: Suppressor_unfold)
qed

lemma restrict_to_all: "set indexes = {..<length ds} \<Longrightarrow> restrict_to ds indexes = ds"
  by (simp add: restrict_to_def map_nth)

text \<open>
  C5. Suppression is idempotent: run again, with the same thresholds, on the
  detection set restricted to what it retained, the suppressor retains every
  detection of that set, so the restriction to its second output is the same
  list of detections.
\<close>

theorem suppressor_idempotent:
  "set (Suppressor (restrict_to ds (Suppressor ds s t)) s t)
      = {..<length (restrict_to ds (Suppressor ds s t))}
   \<and> restrict_to (restrict_to ds (Suppressor ds s t))
        (Suppressor (restrict_to ds (Suppressor ds s t)) s t)
      = restrict_to ds (Suppressor ds s t)"
proof -
  let ?R = "Suppressor ds s t"
  let ?js = "filter (\<lambda>i. i \<in> set ?R) [0..<length ds]"
  let ?kept = "restrict_to ds ?R"
  have len: "length ?kept = length ?js" by (simp add: restrict_to_def)
  have dj: "distinct ?js" by simp
  have nth_kept: "?kept ! k = ds ! (?js ! k)" if "k < length ?js" for k
    using that by (simp add: restrict_to_def)
  have in_R: "?js ! k \<in> set ?R" if "k < length ?js" for k
    using nth_mem[OF that] by simp
  have all: "set (Suppressor ?kept s t) = {..<length ?kept}"
  proof (rule Suppressor_all)
    fix k assume "k < length ?kept"
    then have k: "k < length ?js" by (simp only: len)
    show "\<not> confidence (?kept ! k) < s"
      using Suppressor_member[OF in_R[OF k]] nth_kept[OF k] by simp
  next
    fix k l assume "k < length ?kept" "l < length ?kept" "k \<noteq> l"
    then have k: "k < length ?js" and l: "l < length ?js" by (simp_all only: len)
    have "?js ! k \<noteq> ?js ! l"
      using dj k l \<open>k \<noteq> l\<close> by (simp add: nth_eq_iff_index_eq)
    then show "iou (rect (?kept ! k)) (rect (?kept ! l)) \<le> t"
      using Suppressor_pairwise[OF in_R[OF k] in_R[OF l]] nth_kept[OF k] nth_kept[OF l] by simp
  qed
  then show ?thesis using restrict_to_all by blast
qed

theorem suppressor_idempotent_witness:
  "restrict_to
      [\<lparr>class_id = 1, confidence = 3 / 5, rect = (0, 0, 10, 9)\<rparr>,
       \<lparr>class_id = 0, confidence = 9 / 10, rect = (0, 0, 10, 10)\<rparr>,
       \<lparr>class_id = 0, confidence = 9 / 10, rect = (5, 0, 10, 10)\<rparr>] [1, 2] =
      [\<lparr>class_id = 0, confidence = 9 / 10, rect = (0, 0, 10, 10)\<rparr>,
       \<lparr>class_id = 0, confidence = 9 / 10, rect = (5, 0, 10, 10)\<rparr>]
   \<and> set (Suppressor
          [\<lparr>class_id = 0, confidence = 9 / 10, rect = (0, 0, 10, 10)\<rparr>,
           \<lparr>class_id = 0, confidence = 9 / 10, rect = (5, 0, 10, 10)\<rparr>] (2 / 5) (3 / 5)) = {..<2}"
proof -
  let ?ds = "[\<lparr>class_id = 1, confidence = 3 / 5, rect = (0, 0, 10, 9)\<rparr>,
       \<lparr>class_id = 0, confidence = 9 / 10, rect = (0, 0, 10, 10)\<rparr>,
       \<lparr>class_id = 0, confidence = 9 / 10, rect = (5, 0, 10, 10)\<rparr>]"
  have r: "Suppressor ?ds (2 / 5) (3 / 5) = [1, 2]" by code_simp
  have k: "restrict_to ?ds [1, 2] =
      [\<lparr>class_id = 0, confidence = 9 / 10, rect = (0, 0, 10, 10)\<rparr>,
       \<lparr>class_id = 0, confidence = 9 / 10, rect = (5, 0, 10, 10)\<rparr>]"
    by code_simp
  show ?thesis
    using suppressor_idempotent[of ?ds "2 / 5" "3 / 5"] unfolding r k by simp
qed

text \<open>
  Sorting consults the key only on the elements sorted, so changing one score
  leaves the order of the other candidates as it was.
\<close>

lemma insort_key_cong_on:
  "f x = g x \<Longrightarrow> (\<forall>y \<in> set ys. f y = g y) \<Longrightarrow> insort_key f x ys = insort_key g x ys"
  by (induction ys) auto

lemma sort_key_cong_on:
  "(\<forall>x \<in> set xs. f x = g x) \<Longrightarrow> sort_key f xs = sort_key g xs"
proof (induction xs)
  case Nil
  then show ?case by simp
next
  case (Cons x xs)
  then have "sort_key f xs = sort_key g xs" by simp
  moreover have "insort_key f x (sort_key g xs) = insort_key g x (sort_key g xs)"
    using Cons.prems by (intro insort_key_cong_on) auto
  ultimately show ?case by simp
qed

lemma candidates_without:
  "filter (\<lambda>j. j \<noteq> i) (candidates (scores[i := c]) n s) =
   filter (\<lambda>j. j \<noteq> i) (candidates scores n s)"
proof -
  let ?P = "\<lambda>sc j. \<not> sc ! j < s"
  have f: "filter (\<lambda>j. j \<noteq> i) (filter (?P (scores[i := c])) [0..<n]) =
           filter (\<lambda>j. j \<noteq> i) (filter (?P scores) [0..<n])"
    by (simp add: filter_filter) (rule filter_cong, auto)
  have "filter (\<lambda>j. j \<noteq> i) (candidates (scores[i := c]) n s) =
        sort_key (\<lambda>j. - (scores[i := c] ! j)) (filter (\<lambda>j. j \<noteq> i) (filter (?P scores) [0..<n]))"
    by (simp only: candidates_def filter_sort f)
  also have "\<dots> = sort_key (\<lambda>j. - (scores ! j)) (filter (\<lambda>j. j \<noteq> i) (filter (?P scores) [0..<n]))"
    by (rule sort_key_cong_on) auto
  also have "\<dots> = filter (\<lambda>j. j \<noteq> i) (candidates scores n s)"
    by (simp only: candidates_def filter_sort)
  finally show ?thesis .
qed

text \<open>
  With a non-negative threshold, a box without extent can be struck from the
  candidates before or after the greedy pass, to the same effect on the others.
\<close>

lemma greedy_without_degenerate:
  "0 \<le> t \<Longrightarrow> degenerate (bb ! i) \<Longrightarrow>
     greedy bb t (filter (\<lambda>j. j \<noteq> i) cs) = filter (\<lambda>j. j \<noteq> i) (greedy bb t cs)"
proof (induction bb t cs rule: greedy.induct)
  case (1 bb t)
  then show ?case by simp
next
  case (2 bb t c cs)
  let ?keep = "\<lambda>j. \<not> t < iou (bb ! c) (bb ! j)"
  show ?case
  proof (cases "c = i")
    case True
    have "filter ?keep cs = cs"
      using 2(2,3) True by (intro filter_True) (simp add: iou_degenerate)
    then show ?thesis using 2 True by simp
  next
    case False
    have "filter ?keep (filter (\<lambda>j. j \<noteq> i) cs) = filter (\<lambda>j. j \<noteq> i) (filter ?keep cs)"
      by (simp add: filter_filter conj_commute)
    then show ?thesis using 2 False by simp
  qed
qed

lemma map_rect_confidence_update:
  "map rect (ds[i := (ds ! i)\<lparr>confidence := c\<rparr>]) = map rect ds"
proof (cases "i < length ds")
  case True
  then have "(map rect ds)[i := rect (ds ! i)] = (map rect ds)[i := map rect ds ! i]" by simp
  then show ?thesis by (simp add: map_update)
next
  case False
  then have "ds[i := (ds ! i)\<lparr>confidence := c\<rparr>] = ds" by (intro list_update_beyond) simp
  then show ?thesis by simp
qed

lemma map_confidence_update:
  "map confidence (ds[i := (ds ! i)\<lparr>confidence := c\<rparr>]) = (map confidence ds)[i := c]"
  by (simp add: map_update)

text \<open>
  C6. If either of two boxes has zero or negative width or height, their IoU
  is 0. Hence, for a non-negative overlap threshold, a detection with such a
  box is retained exactly when it passes the score gate (overlap never removes
  it), and which other detections are retained, and in which order, does not
  depend on its confidence, in particular not on whether it passes the score
  gate at all (it never suppresses another).
\<close>

theorem degenerate_box_inert:
  "(degenerate a \<or> degenerate b \<longrightarrow> iou a b = 0)
   \<and> (0 \<le> t \<and> i < length ds \<and> degenerate (rect (ds ! i)) \<longrightarrow>
        (i \<in> set (Suppressor ds s t)) = (\<not> confidence (ds ! i) < s)
      \<and> (\<forall>c. filter (\<lambda>j. j \<noteq> i) (Suppressor (ds[i := (ds ! i)\<lparr>confidence := c\<rparr>]) s t)
             = filter (\<lambda>j. j \<noteq> i) (Suppressor ds s t)))"
proof (intro conjI impI allI)
  assume "degenerate a \<or> degenerate b"
  then show "iou a b = 0" by (rule iou_degenerate)
next
  assume h: "0 \<le> t \<and> i < length ds \<and> degenerate (rect (ds ! i))"
  then have dg: "degenerate (map rect ds ! i)" by simp
  have no: "\<forall>j. \<not> t < iou (map rect ds ! j) (map rect ds ! i)"
    using h dg by (simp add: iou_degenerate)
  show "(i \<in> set (Suppressor ds s t)) = (\<not> confidence (ds ! i) < s)"
  proof
    assume "i \<in> set (Suppressor ds s t)"
    then show "\<not> confidence (ds ! i) < s" using Suppressor_member by blast
  next
    assume "\<not> confidence (ds ! i) < s"
    then have "i \<in> set (candidates (map confidence ds) (length ds) s)"
      using h by (simp add: set_candidates)
    then show "i \<in> set (Suppressor ds s t)"
      unfolding Suppressor_unfold using no by (rule greedy_keeps)
  qed
next
  fix c
  assume h: "0 \<le> t \<and> i < length ds \<and> degenerate (rect (ds ! i))"
  then have t: "0 \<le> t" and dg: "degenerate (map rect ds ! i)" by simp_all
  let ?ds' = "ds[i := (ds ! i)\<lparr>confidence := c\<rparr>]"
  have "filter (\<lambda>j. j \<noteq> i) (Suppressor ?ds' s t) =
        greedy (map rect ds) t
          (filter (\<lambda>j. j \<noteq> i) (candidates ((map confidence ds)[i := c]) (length ds) s))"
    by (simp add: Suppressor_unfold map_rect_confidence_update map_confidence_update
        greedy_without_degenerate[OF t dg])
  also have "\<dots> = filter (\<lambda>j. j \<noteq> i) (Suppressor ds s t)"
    by (simp add: Suppressor_unfold candidates_without greedy_without_degenerate[OF t dg])
  finally show "filter (\<lambda>j. j \<noteq> i) (Suppressor ?ds' s t) = filter (\<lambda>j. j \<noteq> i) (Suppressor ds s t)" .
qed

theorem degenerate_box_inert_witness:
  "degenerate (3, 3, 0, 5)
   \<and> iou (3, 3, 0, 5) (0, 0, 10, 10) = 0
   \<and> (0 \<in> set (Suppressor
          [\<lparr>class_id = 0, confidence = 9 / 10, rect = (3, 3, 0, 5)\<rparr>,
           \<lparr>class_id = 0, confidence = 4 / 5, rect = (0, 0, 10, 10)\<rparr>] (2 / 5) (3 / 5)))
      = (\<not> (9 / 10 :: rat) < 2 / 5)"
proof -
  let ?ds = "[\<lparr>class_id = 0, confidence = 9 / 10, rect = (3, 3, 0, 5)\<rparr>,
           \<lparr>class_id = 0, confidence = 4 / 5, rect = (0, 0, 10, 10)\<rparr>]"
  have d: "degenerate (3, 3, 0, 5)" by (simp add: degenerate_def)
  have h: "(0 :: rat) \<le> 3 / 5 \<and> 0 < length ?ds \<and> degenerate (rect (?ds ! 0))"
    using d by simp
  note T = degenerate_box_inert[of "(3, 3, 0, 5)" "(0, 0, 10, 10)" "3 / 5" 0 ?ds "2 / 5"]
  have "iou (3, 3, 0, 5) (0, 0, 10, 10) = 0" using T d by blast
  moreover have "(0 \<in> set (Suppressor ?ds (2 / 5) (3 / 5))) = (\<not> confidence (?ds ! 0) < 2 / 5)"
    using T h by blast
  ultimately show ?thesis using d by simp
qed

text \<open>
  C4. Of two detections with confidences 0.9 and 0.6 whose boxes have IoU 0.9,
  both passing the score threshold, suppression with overlap threshold 0.6
  retains only the one with confidence 0.9, in whichever order they are given.
\<close>

theorem suppress_pair_example:
  assumes "iou (rect d1) (rect d2) = 9 / 10"
    and "confidence d1 = 9 / 10" and "confidence d2 = 3 / 5" and "s \<le> 3 / 5"
  shows "Suppressor [d1, d2] s (3 / 5) = [0] \<and> Suppressor [d2, d1] s (3 / 5) = [1]"
proof -
  have u: "[0..<2] = [0, Suc 0]" by (simp add: upt_rec)
  have "iou (rect d2) (rect d1) = 9 / 10" using assms(1) by (simp add: iou_commute)
  with assms show ?thesis
    by (simp add: Suppressor_unfold candidates_def u)
qed

theorem suppress_pair_example_witness:
  "iou (0, 0, 10, 10) (0, 0, 10, 9) = 9 / 10
   \<and> Suppressor [\<lparr>class_id = 0, confidence = 9 / 10, rect = (0, 0, 10, 10)\<rparr>,
                 \<lparr>class_id = 0, confidence = 3 / 5, rect = (0, 0, 10, 9)\<rparr>] (2 / 5) (3 / 5) = [0]
   \<and> Suppressor [\<lparr>class_id = 0, confidence = 3 / 5, rect = (0, 0, 10, 9)\<rparr>,
                 \<lparr>class_id = 0, confidence = 9 / 10, rect = (0, 0, 10, 10)\<rparr>] (2 / 5) (3 / 5) = [1]"
proof -
  let ?d1 = "\<lparr>class_id = 0, confidence = 9 / 10, rect = (0, 0, 10, 10)\<rparr>"
  let ?d2 = "\<lparr>class_id = 0, confidence = 3 / 5, rect = (0, 0, 10, 9)\<rparr>"
  have i: "iou (0, 0, 10, 10) (0, 0, 10, 9) = 9 / 10" by code_simp
  then have 1: "iou (rect ?d1) (rect ?d2) = 9 / 10" by simp
  have 2: "confidence ?d1 = 9 / 10" and 3: "confidence ?d2 = 3 / 5" by simp_all
  have 4: "(2 / 5 :: rat) \<le> 3 / 5" by simp
  show ?thesis using i suppress_pair_example[OF 1 2 3 4] by simp
qed

text \<open>
  C7. Suppression is class-agnostic: relabelling the class ids of the
  detections in any way leaves the retained indices unchanged; and there are
  two overlapping detections of different classes of which the less confident,
  retained when alone, is suppressed by the more confident.
\<close>

theorem suppressor_class_agnostic:
  "(\<forall>f. Suppressor (map (\<lambda>d. d\<lparr>class_id := f d\<rparr>) ds) s t = Suppressor ds s t)
   \<and> (\<exists>d1 d2. class_id d1 \<noteq> class_id d2 \<and> confidence d2 < confidence d1
        \<and> Suppressor [d2] (2 / 5) (3 / 5) = [0]
        \<and> Suppressor [d1, d2] (2 / 5) (3 / 5) = [0]
        \<and> Suppressor [d2, d1] (2 / 5) (3 / 5) = [1])"
proof (intro conjI allI)
  fix f :: "detection \<Rightarrow> nat"
  show "Suppressor (map (\<lambda>d. d\<lparr>class_id := f d\<rparr>) ds) s t = Suppressor ds s t"
    by (simp add: Suppressor_def comp_def)
next
  let ?d1 = "\<lparr>class_id = 0, confidence = 9 / 10, rect = (0, 0, 10, 10)\<rparr>"
  let ?d2 = "\<lparr>class_id = 1, confidence = 3 / 5, rect = (0, 0, 10, 9)\<rparr>"
  have "class_id ?d1 \<noteq> class_id ?d2" "confidence ?d2 < confidence ?d1" by simp_all
  moreover have "Suppressor [?d2] (2 / 5) (3 / 5) = [0]" by code_simp
  moreover have "Suppressor [?d1, ?d2] (2 / 5) (3 / 5) = [0]" by code_simp
  moreover have "Suppressor [?d2, ?d1] (2 / 5) (3 / 5) = [1]" by code_simp
  ultimately show "\<exists>d1 d2. class_id d1 \<noteq> class_id d2 \<and> confidence d2 < confidence d1
        \<and> Suppressor [d2] (2 / 5) (3 / 5) = [0]
        \<and> Suppressor [d1, d2] (2 / 5) (3 / 5) = [0]
        \<and> Suppressor [d2, d1] (2 / 5) (3 / 5) = [1]"
    by blast
qed

theorem suppressor_class_agnostic_witness:
  "Suppressor (map (\<lambda>d. d\<lparr>class_id := 7\<rparr>)
      [\<lparr>class_id = 0, confidence = 9 / 10, rect = (0, 0, 10, 10)\<rparr>,
       \<lparr>class_id = 1, confidence = 3 / 5, rect = (0, 0, 10, 9)\<rparr>]) (2 / 5) (3 / 5)
   = Suppressor
      [\<lparr>class_id = 0, confidence = 9 / 10, rect = (0, 0, 10, 10)\<rparr>,
       \<lparr>class_id = 1, confidence = 3 / 5, rect = (0, 0, 10, 9)\<rparr>] (2 / 5) (3 / 5)"
proof -
  let ?ds = "[\<lparr>class_id = 0, confidence = 9 / 10, rect = (0, 0, 10, 10)\<rparr>,
              \<lparr>class_id = 1, confidence = 3 / 5, rect = (0, 0, 10, 9)\<rparr>]"
  have "\<forall>f. Suppressor (map (\<lambda>d. d\<lparr>class_id := f d\<rparr>) ?ds) (2 / 5) (3 / 5)
          = Suppressor ?ds (2 / 5) (3 / 5)"
    using suppressor_class_agnostic[of ?ds "2 / 5" "3 / 5"] by (rule conjunct1)
  from this[rule_format, of "\<lambda>_. 7"] show ?thesis .
qed

section \<open>Properties of the drawing loop\<close>

text \<open>The colour table has one row per class name.\<close>

lemma length_make_colors: "length (make_colors rnd classes) = length classes"
  by (simp add: make_colors_def)

text \<open>
  The still-image drawing loop over a part of the range: if a retained index
  in that part is not below the number of classes, the loop ends in the
  \<open>IndexError\<close> of \<^verbatim>\<open>colors[i]\<close>.
\<close>

lemma annotate_loop_colors:
  assumes len: "length (class_ids st) = length (boxes st)"
    and valid: "\<forall>i \<in> set indexes. i < length (boxes st) \<longrightarrow> class_ids st ! i < length classes"
    and cols: "length colors = length classes"
  shows "\<forall>i \<in> set rng. i < length (boxes st) \<Longrightarrow>
         \<exists>i \<in> set rng. i \<in> set indexes \<and> length classes \<le> i \<Longrightarrow>
         annotate_loop (draw_image classes colors st) indexes rng acc = Inl (IndexError ''colors'')"
proof (induction rng arbitrary: acc)
  case Nil
  then show ?case by simp
next
  case (Cons i rng)
  show ?case
  proof (cases "i \<in> set indexes")
    case False
    then show ?thesis using Cons by auto
  next
    case True
    then have cid: "class_ids st ! i < length classes" and ib: "i < length (boxes st)"
      using valid Cons.prems(1) by auto
    show ?thesis
    proof (cases "i < length classes")
      case small: True
      then obtain d where d: "draw_image classes colors st i = Inr d"
        using cid ib len cols by (simp add: draw_image_def subscript_def)
      have "\<exists>j \<in> set rng. j \<in> set indexes \<and> length classes \<le> j"
        using Cons.prems(2) small by auto
      then show ?thesis using Cons.IH Cons.prems(1) True d by simp
    next
      case False
      then have "draw_image classes colors st i = Inl (IndexError ''colors'')"
        using cid ib len cols by (simp add: draw_image_def subscript_def)
      then show ?thesis using True by simp
    qed
  qed
qed

text \<open>
  C10. In the still-image cell the colour table has exactly one row per class
  name, and the drawing loop subscripts it with the detection's index. So
  whenever some retained index is greater than or equal to the number of
  classes, drawing fails with the \<open>IndexError\<close> of \<^verbatim>\<open>colors[i]\<close>, although
  every retained detection has a class id that is valid for the class list.
\<close>

theorem image_color_lookup_out_of_range:
  assumes "length (class_ids st) = length (boxes st)"
    and "\<forall>i \<in> set indexes. i < length (boxes st) \<longrightarrow> class_ids st ! i < length classes"
    and "\<exists>i \<in> set indexes. i < length (boxes st) \<and> length classes \<le> i"
  shows "length (make_colors rnd classes) = length classes
       \<and> annotate_image classes (make_colors rnd classes) st indexes = Inl (IndexError ''colors'')"
proof -
  have "annotate_loop (draw_image classes (make_colors rnd classes) st) indexes
          [0..<length (boxes st)] [] = Inl (IndexError ''colors'')"
    using assms(3)
    by (intro annotate_loop_colors[OF assms(1,2) length_make_colors]) auto
  then show ?thesis by (simp add: annotate_image_def length_make_colors)
qed

theorem image_color_lookup_out_of_range_witness:
  "length (make_colors (\<lambda>i. (0, 0, of_nat i)) [''person'']) = length [''person'']
   \<and> annotate_image [''person''] (make_colors (\<lambda>i. (0, 0, of_nat i)) [''person''])
        \<lparr>class_ids = [0, 0], confidences = [9/10, 4/5],
           boxes = [(166, 146, 83, 124), (10, 10, 20, 20)]\<rparr> [0, 1]
       = Inl (IndexError ''colors'')"
proof -
  let ?st = "\<lparr>class_ids = [0, 0], confidences = [9/10, 4/5 :: rat],
               boxes = [(166, 146, 83, 124), (10, 10, 20, 20) :: box]\<rparr>"
  have 1: "length (class_ids ?st) = length (boxes ?st)" by simp
  have 2: "\<forall>i \<in> set [0, 1]. i < length (boxes ?st) \<longrightarrow> class_ids ?st ! i < length [''person'']"
    by (simp add: nth_Cons')
  have 3: "\<exists>i \<in> set [0, 1 :: nat]. i < length (boxes ?st) \<and> length [''person''] \<le> i"
    by simp
  show ?thesis
    by (rule image_color_lookup_out_of_range[OF 1 2 3])
qed

section \<open>Properties of the video loop\<close>

text \<open>
  A pass counts one frame and releases nothing, whether it completes or
  raises.
\<close>

lemma video_pass_Inr:
  "video_pass nms classes colors s inp = Inr s' \<Longrightarrow>
     frame_id s' = frame_id s + 1 \<and> cap_released s' = cap_released s
     \<and> windows_destroyed s' = windows_destroyed s"
  by (auto simp: video_pass_def Let_def split: option.splits sum.splits if_splits prod.splits)

lemma video_pass_Inl:
  "video_pass nms classes colors s inp = Inl (e, s') \<Longrightarrow>
     frame_id s' = frame_id s + 1 \<and> cap_released s' = cap_released s
     \<and> windows_destroyed s' = windows_destroyed s"
  by (auto simp: video_pass_def Let_def split: option.splits sum.splits if_splits prod.splits)

text \<open>
  While no pass has stopped the loop or raised, every pass supplied has been
  run and the loop goes on with the passes that follow.
\<close>

lemma video_loop_Running:
  "video_loop nms classes colors s pre = Running s1 \<Longrightarrow>
     frame_id s1 = frame_id s + length pre \<and> cap_released s1 = cap_released s
     \<and> windows_destroyed s1 = windows_destroyed s
     \<and> video_loop nms classes colors s (pre @ later) = video_loop nms classes colors s1 later"
proof (induction pre arbitrary: s)
  case Nil
  then show ?case by simp
next
  case (Cons p pre)
  from Cons.prems obtain s2 where
    p: "video_pass nms classes colors s p = Inr s2" and k: "key p \<noteq> 27" and
    r: "video_loop nms classes colors s2 pre = Running s1"
    by (auto split: sum.splits prod.splits if_splits)
  show ?case using Cons.IH[OF r] video_pass_Inr[OF p] p k by simp
qed

lemma video_loop_Raised:
  "video_loop nms classes colors s inps = Raised e s' \<Longrightarrow>
     cap_released s' = cap_released s \<and> windows_destroyed s' = windows_destroyed s"
proof (induction inps arbitrary: s)
  case Nil
  then show ?case by simp
next
  case (Cons p inps)
  show ?case
  proof (cases "video_pass nms classes colors s p")
    case (Inl es)
    then show ?thesis using Cons.prems video_pass_Inl[of nms classes colors s p "fst es" "snd es"]
      by (cases es) auto
  next
    case (Inr s2)
    then have "video_loop nms classes colors s2 inps = Raised e s'"
      using Cons.prems by (auto split: if_splits)
    then show ?thesis using Cons.IH video_pass_Inr[OF Inr] by simp
  qed
qed

lemma video_loop_Stopped:
  "video_loop nms classes colors s inps = Stopped s' \<Longrightarrow>
     cap_released s' = cap_released s + 1 \<and> windows_destroyed s' = windows_destroyed s + 1
     \<and> frame_id s' \<le> frame_id s + length inps"
proof (induction inps arbitrary: s)
  case Nil
  then show ?case by simp
next
  case (Cons p inps)
  show ?case
  proof (cases "video_pass nms classes colors s p")
    case (Inl es)
    then show ?thesis using Cons.prems by (cases es) auto
  next
    case (Inr s2)
    show ?thesis
    proof (cases "key p = 27")
      case True
      then have "s' = teardown s2" using Cons.prems Inr by simp
      then show ?thesis using video_pass_Inr[OF Inr] by (simp add: teardown_def)
    next
      case False
      then have "video_loop nms classes colors s2 inps = Stopped s'"
        using Cons.prems Inr by simp
      then show ?thesis using Cons.IH video_pass_Inr[OF Inr] by fastforce
    qed
  qed
qed

text \<open>
  C9, amended. If the passes before pass \<open>k\<close> neither stop the loop nor raise
  and pass \<open>k\<close> completes and reads the stop key 27, the cell stops there
  whatever passes would follow: the frame counter stands at \<open>k\<close>, so no pass
  \<open>k + 1\<close> is begun, and the capture handle and the windows have each been
  released exactly once. Every stopped exit has released each exactly once.
  When a pass raises, the exception leaves the cell with nothing released.
\<close>

theorem video_loop_exit_paths:
  "(video_loop nms classes colors s pre = Running s1
      \<and> video_pass nms classes colors s1 inp = Inr s2 \<and> key inp = 27 \<longrightarrow>
        video_loop nms classes colors s (pre @ inp # rest) = Stopped (teardown s2)
      \<and> frame_id (teardown s2) = frame_id s + length pre + 1
      \<and> cap_released (teardown s2) = cap_released s + 1
      \<and> windows_destroyed (teardown s2) = windows_destroyed s + 1)
   \<and> (video_loop nms classes colors s inps = Stopped s' \<longrightarrow>
        cap_released s' = cap_released s + 1 \<and> windows_destroyed s' = windows_destroyed s + 1)
   \<and> (video_loop nms classes colors s inps = Raised e s' \<longrightarrow>
        cap_released s' = cap_released s \<and> windows_destroyed s' = windows_destroyed s)"
proof (intro conjI impI)
  assume h: "video_loop nms classes colors s pre = Running s1
      \<and> video_pass nms classes colors s1 inp = Inr s2 \<and> key inp = 27"
  then have r: "video_loop nms classes colors s pre = Running s1"
    and p: "video_pass nms classes colors s1 inp = Inr s2" and k: "key inp = 27"
    by simp_all
  note R = video_loop_Running[OF r, of "inp # rest"]
  note P = video_pass_Inr[OF p]
  show "video_loop nms classes colors s (pre @ inp # rest) = Stopped (teardown s2)"
    using R p k by simp
  show "frame_id (teardown s2) = frame_id s + length pre + 1"
    using R P by (simp add: teardown_def)
  show "cap_released (teardown s2) = cap_released s + 1"
    using R P by (simp add: teardown_def)
  show "windows_destroyed (teardown s2) = windows_destroyed s + 1"
    using R P by (simp add: teardown_def)
next
  assume "video_loop nms classes colors s inps = Stopped s'"
  then show "cap_released s' = cap_released s + 1" "windows_destroyed s' = windows_destroyed s + 1"
    using video_loop_Stopped by blast+
next
  assume "video_loop nms classes colors s inps = Raised e s'"
  then show "cap_released s' = cap_released s" "windows_destroyed s' = windows_destroyed s"
    using video_loop_Raised by blast+
qed

theorem video_loop_exit_paths_witness:
  "video_loop NMSBoxes [''person''] [(0, 0, 0)] session_init
      ([\<lparr>frame = Some (416, 416, [[[1/2, 1/2, 1/5, 3/10, 1, 9/10]]]), elapsed_time = 1, key = -1\<rparr>]
        @ \<lparr>frame = Some (416, 416, []), elapsed_time = 2, key = 27\<rparr>
        # [\<lparr>frame = None, elapsed_time = 3, key = -1\<rparr>])
     = Stopped (teardown
         \<lparr>frame_id = 2,
            shown = [([\<lparr>d_box = (166, 146, 83, 124), d_label = ''person'',
                        d_conf = Some (9 / 10), d_color = (0, 0, 0)\<rparr>], 1), ([], 1)],
            cap_released = 0, windows_destroyed = 0\<rparr>)
   \<and> cap_released (teardown
         \<lparr>frame_id = 2,
            shown = [([\<lparr>d_box = (166, 146, 83, 124), d_label = ''person'',
                        d_conf = Some (9 / 10), d_color = (0, 0, 0)\<rparr>], 1), ([], 1)],
            cap_released = 0, windows_destroyed = 0\<rparr>) = 1"
proof -
  let ?p1 = "\<lparr>frame = Some (416, 416, [[[1/2, 1/2, 1/5, 3/10, 1, 9/10]]]),
               elapsed_time = 1, key = -1\<rparr>"
  let ?p2 = "\<lparr>frame = Some (416, 416, []), elapsed_time = 2, key = 27\<rparr>"
  let ?s1 = "\<lparr>frame_id = 1,
               shown = [([\<lparr>d_box = (166, 146, 83, 124), d_label = ''person'',
                           d_conf = Some (9 / 10), d_color = (0, 0, 0)\<rparr>], 1)],
               cap_released = 0, windows_destroyed = 0\<rparr>"
  let ?s2 = "\<lparr>frame_id = 2,
               shown = [([\<lparr>d_box = (166, 146, 83, 124), d_label = ''person'',
                           d_conf = Some (9 / 10), d_color = (0, 0, 0)\<rparr>], 1), ([], 1)],
               cap_released = 0, windows_destroyed = 0\<rparr>"
  have a: "video_loop NMSBoxes [''person''] [(0, 0, 0)] session_init [?p1] = Running ?s1"
    by code_simp
  have b: "video_pass NMSBoxes [''person''] [(0, 0, 0)] ?s1 ?p2 = Inr ?s2"
    by code_simp
  have c: "key ?p2 = 27" by simp
  have i: "cap_released session_init = 0" by (simp add: session_init_def)
  show ?thesis
    using video_loop_exit_paths[of NMSBoxes "[''person'']" "[(0, 0, 0)]" session_init
        "[?p1]" ?s1 ?p2 ?s2 "[\<lparr>frame = None, elapsed_time = 3, key = -1\<rparr>]"] a b c i
    by simp
qed

text \<open>
  C9, as the specification states it, fails: when the second pass finds no
  frame, \<^verbatim>\<open>frame.shape\<close> raises and the cell is left with the capture handle
  and the windows never released.
\<close>

theorem release_on_error_counterexample:
  "video_cell NMSBoxes [''person''] [(0, 0, 0)]
      [\<lparr>frame = Some (416, 416, [[[1/2, 1/2, 1/5, 3/10, 1, 1/10]]]), elapsed_time = 1, key = -1\<rparr>,
       \<lparr>frame = None, elapsed_time = 2, key = 27\<rparr>]
     = Raised AttributeError
         \<lparr>frame_id = 2, shown = [([], 1)], cap_released = 0, windows_destroyed = 0\<rparr>"
  by code_simp

end
